theory Spec2Isabelle
  imports Main
begin

section \<open>The tree-structured checkbox prompt (select.ts)\<close>

text \<open>
  A shallow embedding of the selection engine of the interactive prompt: the item tree,
  the derived checked predicates, the focus path and the key handler of \<open>useKeypress\<close>.
  JavaScript's optional fields are options (\<open>None\<close> is \<open>undefined\<close>), a thrown
  exception is the left injection of a sum, and array indices are natural numbers, an
  out-of-range read being written out as the \<open>undefined\<close> the source gets.
  The opaque \<open>help\<close> action, the theme and the rendered text carry no state of the
  selection engine and are left out; every spread \<open>{...item, f: v}\<close> is a record update.
\<close>

subsection \<open>Data model\<close>

text \<open>\<open>disabled?: boolean | string\<close>: a flag or a reason.\<close>

datatype flagstr = FBool bool | FStr string

text \<open>JavaScript truthiness of an optional boolean and of an optional flag-or-string.\<close>

fun truthy :: "bool option \<Rightarrow> bool" where
  "truthy None = False"
| "truthy (Some b) = b"

fun truthy_flag :: "flagstr option \<Rightarrow> bool" where
  "truthy_flag None = False"
| "truthy_flag (Some (FBool b)) = b"
| "truthy_flag (Some (FStr s)) = (s \<noteq> [])"

record 'v choice =
  c_name :: "string option"
  c_value :: 'v
  c_short :: "string option"
  c_disabled :: "flagstr option"
  c_checked :: "bool option"

text \<open>The fields of a Group other than its \<open>choices\<close>.\<close>

record group =
  g_name :: "string option"
  g_short :: "string option"
  g_disabled :: "flagstr option"
  g_expanded :: "bool option"

text \<open>\<open>type Item<Value> = Separator | Choice<Value> | Group<Value>\<close>. A Separator
  carries its display text. The functions below recurse through \<open>choices\<close> at any
  depth, so the children of a Group are items again.\<close>

datatype 'v item =
    Separator string
  | Choice "'v choice"
  | Group group "'v item list"

datatype error = ValidationError string | AssertionError | TypeError

text \<open>\<open>xs[i]\<close> of JavaScript: \<open>None\<close> is \<open>undefined\<close>.\<close>

definition at :: "'a list \<Rightarrow> nat \<Rightarrow> 'a option" where
  "at xs i = (if i < length xs then Some (xs ! i) else None)"

subsection \<open>Predicates on items\<close>

fun isGroup :: "'v item \<Rightarrow> bool" where
  "isGroup (Group g cs) = True"
| "isGroup _ = False"

fun isSeparator :: "'v item \<Rightarrow> bool" where
  "isSeparator (Separator s) = True"
| "isSeparator _ = False"

fun isSelectable :: "'v item \<Rightarrow> bool" where
  "isSelectable (Separator s) = False"
| "isSelectable (Choice c) = (\<not> truthy_flag (c_disabled c))"
| "isSelectable (Group g cs) = (\<not> truthy_flag (g_disabled g))"

text \<open>\<open>isSelectable(item) && Boolean(item.checked)\<close>; a Group has no \<open>checked\<close> field.\<close>

fun isChecked :: "'v item \<Rightarrow> bool" where
  "isChecked (Separator s) = False"
| "isChecked (Choice c) = (\<not> truthy_flag (c_disabled c) \<and> truthy (c_checked c))"
| "isChecked (Group g cs) = False"

fun anyChecked :: "'v item \<Rightarrow> bool" where
  "anyChecked (Group g cs) = list_ex anyChecked cs"
| "anyChecked item = isChecked item"

fun allChecked :: "'v item \<Rightarrow> bool" where
  "allChecked (Group g cs) = list_all allChecked cs"
| "allChecked item = isChecked item"

fun getChecked :: "'v item \<Rightarrow> 'v choice list" where
  "getChecked (Separator s) = []"
| "getChecked (Group g cs) = concat (map getChecked cs)"
| "getChecked (Choice c) = (if truthy (c_checked c) then [c] else [])"

text \<open>\<open>calcPrior\<close> is also called on \<open>ptr.choices[idx]\<close> when that is \<open>undefined\<close>;
  \<open>isGroup(undefined)\<close> then reads a property of \<open>undefined\<close> and throws a TypeError.
  For an empty \<open>choices\<close> the source's \<open>idx\<close> is \<open>-1\<close>; here it is \<open>0\<close>, and both
  reads are \<open>undefined\<close>.\<close>

function calcPrior :: "'v item option \<Rightarrow> error + nat list" where
  "calcPrior None = Inl TypeError"
| "calcPrior (Some (Group g cs)) =
     (if truthy (g_expanded g)
      then (let idx = length cs - 1
            in case calcPrior (at cs idx) of
                 Inl e \<Rightarrow> Inl e
               | Inr rest \<Rightarrow> Inr (idx # rest))
      else Inr [])"
| "calcPrior (Some (Separator s)) = Inr []"
| "calcPrior (Some (Choice c)) = Inr []"
  by pat_completeness auto

lemma size_at_le: "size_option size (at cs i) \<le> Suc (size_list size cs)"
proof (cases "i < length cs")
  case True
  then have "cs ! i \<in> set cs" by simp
  then have "size (cs ! i) \<le> size_list size cs" by (simp add: size_list_estimation')
  with True show ?thesis by (simp add: at_def)
next
  case False
  then show ?thesis by (simp add: at_def)
qed

termination calcPrior
  apply (relation "measure (size_option size)")
   apply simp
  subgoal for g cs x using size_at_le [of cs "length cs - 1"] by simp
  done

subsection \<open>Mutations of one item\<close>

fun mapItemStatic :: "bool \<Rightarrow> 'v item \<Rightarrow> 'v item" where
  "mapItemStatic checked (Group g cs) = Group g (map (mapItemStatic checked) cs)"
| "mapItemStatic checked (Choice c) =
     (if isSelectable (Choice c) then Choice (c\<lparr>c_checked := Some checked\<rparr>) else Choice c)"
| "mapItemStatic checked (Separator s) = Separator s"

fun toggle :: "'v item \<Rightarrow> 'v item" where
  "toggle (Separator s) = Separator s"
| "toggle (Group g cs) = Group g (map toggle cs)"
| "toggle (Choice c) = Choice (c\<lparr>c_checked := Some (\<not> truthy (c_checked c))\<rparr>)"

text \<open>The callback \<open>check\<close> of the \<open>a\<close> branch, closed over \<open>selectAll\<close>.\<close>

fun check :: "bool \<Rightarrow> 'v item \<Rightarrow> 'v item" where
  "check selectAll (Group g cs) = Group g (map (check selectAll) cs)"
| "check selectAll (Choice c) =
     (if isSelectable (Choice c) then Choice (c\<lparr>c_checked := Some selectAll\<rparr>) else Choice c)"
| "check selectAll (Separator s) = Separator s"

text \<open>The new items of the \<open>a\<close> branch: \<open>selectAll = !items.every(allChecked)\<close>, then
  \<open>items.map(check)\<close>.\<close>

definition select_all :: "'v item list \<Rightarrow> 'v item list" where
  "select_all items =
     (let selectAll = \<not> list_all allChecked items
      in map (check selectAll) items)"

subsection \<open>Selectable bounds\<close>

text \<open>\<open>Array.prototype.findIndex\<close> and \<open>findLastIndex\<close>: \<open>-1\<close> when no element satisfies
  the predicate.\<close>

fun findIndex :: "('a \<Rightarrow> bool) \<Rightarrow> 'a list \<Rightarrow> int" where
  "findIndex p [] = - 1"
| "findIndex p (x # xs) =
     (if p x then 0 else (let r = findIndex p xs in if r < 0 then - 1 else r + 1))"

definition findLastIndex :: "('a \<Rightarrow> bool) \<Rightarrow> 'a list \<Rightarrow> int" where
  "findLastIndex p xs =
     (let r = findIndex p (rev xs) in if r < 0 then - 1 else int (length xs) - 1 - r)"

record selectable_bounds =
  b_first :: nat
  b_last :: nat

definition bounds :: "'v item list \<Rightarrow> error + selectable_bounds" where
  "bounds items =
     (let first = findIndex isSelectable items;
          last = findLastIndex isSelectable items
      in if first < 0
         then Inl (ValidationError
                ''[checkbox prompt] No selectable choices. All choices are disabled.'')
         else Inr \<lparr>b_first = nat first, b_last = nat last\<rparr>)"

subsection \<open>Navigation\<close>

text \<open>The \<open>reduce\<close> of the Down branch: it walks \<open>active\<close> from the root, carrying the
  current \<open>choices\<close> and the items met so far. \<open>isGroup(choice)\<close> on an \<open>undefined\<close>
  \<open>choice\<close> throws a TypeError.\<close>

fun hierarchy_reduce ::
  "'v item list \<times> 'v item list \<Rightarrow> nat list \<Rightarrow> error + ('v item list \<times> 'v item list)" where
  "hierarchy_reduce (choices, acc) [] = Inr (choices, acc)"
| "hierarchy_reduce (choices, acc) (activeIndex # rest) =
     (case at choices activeIndex of
        None \<Rightarrow> Inl TypeError
      | Some choice \<Rightarrow>
          hierarchy_reduce
            ((case choice of Group g cs \<Rightarrow> cs | _ \<Rightarrow> []), acc @ [choice]) rest)"

definition down :: "'v item list \<Rightarrow> nat list \<Rightarrow> error + nat list" where
  "down items active =
     (case hierarchy_reduce (items, []) active of
        Inl e \<Rightarrow> Inl e
      | Inr (uu, hierarchy) \<Rightarrow>
          (case at hierarchy (length hierarchy - 1) of
             None \<Rightarrow> Inl TypeError
           | Some currentSelectedItem \<Rightarrow>
               if (case currentSelectedItem of
                     Group g cs \<Rightarrow> truthy (g_expanded g) \<and> length cs \<noteq> 0
                   | _ \<Rightarrow> False)
               then Inr (active @ [0])
               else if length active = 1 then Inr [hd active + 1]
               else (case at hierarchy (length hierarchy - 2) of
                       Some (Group g cs) \<Rightarrow>
                         (let nextChildIndex = last active + 1
                          in if nextChildIndex < length cs
                             then Inr (butlast active @ [nextChildIndex])
                             else Inr (butlast (butlast active) @ [last (butlast active) + 1]))
                     | Some _ \<Rightarrow> Inl AssertionError
                     | None \<Rightarrow> Inl TypeError)))"

text \<open>The \<open>for\<close> loop of the Up branch: \<open>ptr = ptr.choices[n[i]]\<close>, where reading
  \<open>choices\<close> of \<open>undefined\<close>, or indexing the missing \<open>choices\<close> of a Choice or a
  Separator, throws a TypeError.\<close>

fun up_ptr :: "'v item option \<Rightarrow> nat list \<Rightarrow> error + 'v item option" where
  "up_ptr ptr [] = Inr ptr"
| "up_ptr ptr (i # rest) =
     (case ptr of
        Some (Group g cs) \<Rightarrow> up_ptr (at cs i) rest
      | _ \<Rightarrow> Inl TypeError)"

text \<open>With an empty \<open>active\<close> the source computes \<open>n = [NaN]\<close>, reads \<open>items[NaN]\<close>, which is
  \<open>undefined\<close>, and \<open>calcPrior\<close> throws.\<close>

definition up :: "'v item list \<Rightarrow> selectable_bounds \<Rightarrow> nat list \<Rightarrow> error + nat list" where
  "up items bnds active =
     (if active = [] then Inl TypeError
      else if length active = 1 \<and> hd active = 0 then Inr [b_last bnds]
      else if last active = 0 then Inr (butlast active)
      else (let n = butlast active @ [last active - 1]
            in case up_ptr (at items (hd n)) (tl n) of
                 Inl e \<Rightarrow> Inl e
               | Inr ptr \<Rightarrow>
                   (case calcPrior ptr of
                      Inl e \<Rightarrow> Inl e
                    | Inr prior \<Rightarrow> Inr (n @ prior))))"

subsection \<open>Expanding, collapsing and toggling along the focus path\<close>

text \<open>Each branch maps the root items with a callback \<open>mapItem(depth, ...)\<close> that receives
  the item and its index and maps the \<open>choices\<close> of a Group with \<open>mapItem(depth + 1, ...)\<close>.
  The \<open>..._mapItems\<close> functions are \<open>Array.prototype.map\<close> with that callback, the index
  counted from the given start. \<open>active[depth]\<close> is \<open>undefined\<close> beyond the end of
  \<open>active\<close> and then equals no index.\<close>

fun right_mapItem :: "nat list \<Rightarrow> nat \<Rightarrow> nat \<Rightarrow> 'v item \<Rightarrow> 'v item"
  and right_mapItems :: "nat list \<Rightarrow> nat \<Rightarrow> nat \<Rightarrow> 'v item list \<Rightarrow> 'v item list" where
  "right_mapItem active depth index (Group g cs) =
     (if at active depth \<noteq> Some index then Group g cs
      else Group (g\<lparr>g_expanded := Some True\<rparr>) (right_mapItems active (depth + 1) 0 cs))"
| "right_mapItem active depth index (Choice c) = Choice c"
| "right_mapItem active depth index (Separator s) = Separator s"
| "right_mapItems active depth index [] = []"
| "right_mapItems active depth index (item # rest) =
     right_mapItem active depth index item # right_mapItems active depth (index + 1) rest"

fun left_mapItem :: "nat list \<Rightarrow> nat \<Rightarrow> bool \<Rightarrow> nat \<Rightarrow> 'v item \<Rightarrow> 'v item"
  and left_mapItems :: "nat list \<Rightarrow> nat \<Rightarrow> bool \<Rightarrow> nat \<Rightarrow> 'v item list \<Rightarrow> 'v item list" where
  "left_mapItem active depth isParentSelected index (Group g cs) =
     (let currentInSelectionTree = (isParentSelected \<or> at active depth = Some index)
      in if currentInSelectionTree
         then Group (g\<lparr>g_expanded := Some False\<rparr>)
                (left_mapItems active (depth + 1) currentInSelectionTree 0 cs)
         else Group g cs)"
| "left_mapItem active depth isParentSelected index (Choice c) = Choice c"
| "left_mapItem active depth isParentSelected index (Separator s) = Separator s"
| "left_mapItems active depth isParentSelected index [] = []"
| "left_mapItems active depth isParentSelected index (item # rest) =
     left_mapItem active depth isParentSelected index item
       # left_mapItems active depth isParentSelected (index + 1) rest"

text \<open>The Space branch. \<open>finalIteration\<close> is \<open>depth === active.length - 1\<close>; on the path but
  not at its end, \<open>assert(isGroup(item))\<close> throws for a Choice or a Separator.\<close>

fun space_mapItem :: "nat list \<Rightarrow> nat \<Rightarrow> nat \<Rightarrow> 'v item \<Rightarrow> error + 'v item"
  and space_mapItems :: "nat list \<Rightarrow> nat \<Rightarrow> nat \<Rightarrow> 'v item list \<Rightarrow> error + 'v item list" where
  "space_mapItem active depth index (Group g cs) =
     (if at active depth = Some index
      then (if depth + 1 = length active
            then Inr (Group g (map (mapItemStatic (\<not> allChecked (Group g cs))) cs))
            else (case space_mapItems active (depth + 1) 0 cs of
                    Inl e \<Rightarrow> Inl e
                  | Inr cs' \<Rightarrow> Inr (Group g cs')))
      else Inr (Group g cs))"
| "space_mapItem active depth index (Choice c) =
     (if at active depth = Some index
      then (if depth + 1 = length active
            then (if isSelectable (Choice c)
                  then Inr (Choice (c\<lparr>c_checked := Some (\<not> truthy (c_checked c))\<rparr>))
                  else Inr (Choice c))
            else Inl AssertionError)
      else Inr (Choice c))"
| "space_mapItem active depth index (Separator s) =
     (if at active depth = Some index
      then (if depth + 1 = length active then Inr (Separator s) else Inl AssertionError)
      else Inr (Separator s))"
| "space_mapItems active depth index [] = Inr []"
| "space_mapItems active depth index (item # rest) =
     (case space_mapItem active depth index item of
        Inl e \<Rightarrow> Inl e
      | Inr item' \<Rightarrow>
          (case space_mapItems active depth (index + 1) rest of
             Inl e \<Rightarrow> Inl e
           | Inr rest' \<Rightarrow> Inr (item' # rest')))"

text \<open>The \<open>?\<close> branch resolves the focused item; the help action it may call is opaque
  and changes no state of the prompt.\<close>

fun help_reduce :: "'v item option \<Rightarrow> nat list \<Rightarrow> error + 'v item option" where
  "help_reduce acc [] = Inr acc"
| "help_reduce acc (cur # rest) =
     (case acc of
        None \<Rightarrow> Inl TypeError
      | Some (Group g cs) \<Rightarrow> help_reduce (at cs cur) rest
      | Some _ \<Rightarrow> Inl AssertionError)"

definition help_branch :: "'v item list \<Rightarrow> nat list \<Rightarrow> error + unit" where
  "help_branch items active =
     (case help_reduce (if active = [] then None else at items (hd active)) (tl active) of
        Inl e \<Rightarrow> Inl e
      | Inr None \<Rightarrow> Inl TypeError
      | Inr (Some item) \<Rightarrow> Inr ())"

subsection \<open>The tri-state of a Group\<close>

text \<open>The aggregate is computed where a Group's checkbox is rendered: filled when
  \<open>item.choices.every(allChecked)\<close>, else the partial glyph when
  \<open>item.choices.some(anyChecked)\<close>, else the empty circle.\<close>

datatype tristate = All | Partial | NoneChecked


subsection \<open>The prompt session\<close>

text \<open>What \<open>validate\<close> resolves to: \<open>boolean | string\<close>.\<close>

datatype vresult = VBool bool | VStr string

datatype status = Pending | Done

record 'v config =
  choices :: "'v item list"
  loop :: "bool option"
  required :: "bool option"
  validate :: "('v choice list \<Rightarrow> vresult) option"

text \<open>The hooks' state. \<open>validate_calls\<close> logs the argument of every call of \<open>validate\<close>
  and \<open>answer\<close> holds what \<open>done\<close> was called with; neither is read by the code.\<close>

record 'v state =
  status :: status
  items :: "'v item list"
  active :: "nat list"
  errorMsg :: "string option"
  showHelpTip :: bool
  validate_calls :: "'v choice list list"
  answer :: "'v list option"

datatype key = KEnter | KDown | KUp | KRight | KLeft | KSpace | KA | KI | KHelp | KNumber | KOther

text \<open>The first render: \<open>choices.flatMap((choice) => ({ ...choice }))\<close> copies each root item,
  \<open>bounds\<close> throws when nothing is selectable, and \<open>active\<close> starts at \<open>[bounds.first]\<close>.\<close>

definition init :: "'v config \<Rightarrow> error + 'v state" where
  "init cfg =
     (let its = map (\<lambda>choice. choice) (choices cfg)
      in case bounds its of
           Inl e \<Rightarrow> Inl e
         | Inr bnds \<Rightarrow>
             Inr \<lparr>status = Pending, items = its, active = [b_first bnds], errorMsg = None,
                  showHelpTip = True, validate_calls = [], answer = None\<rparr>)"

text \<open>\<open>validate = () => true\<close> by default.\<close>

definition the_validate :: "'v config \<Rightarrow> 'v choice list \<Rightarrow> vresult" where
  "the_validate cfg = (case validate cfg of None \<Rightarrow> (\<lambda>uu. VBool True) | Some f \<Rightarrow> f)"

definition enter :: "'v config \<Rightarrow> 'v state \<Rightarrow> 'v state" where
  "enter cfg st =
     (let selection = concat (map getChecked (items st));
          isValid = the_validate cfg selection;
          st1 = st\<lparr>validate_calls := validate_calls st @ [selection]\<rparr>
      in if truthy (required cfg) \<and> \<not> list_ex anyChecked (items st)
         then st1\<lparr>errorMsg := Some ''At least one choice must be selected''\<rparr>
         else if isValid = VBool True
         then st1\<lparr>status := Done, answer := Some (map c_value selection)\<rparr>
         else st1\<lparr>errorMsg := Some (case isValid of
                                       VStr s \<Rightarrow> if s \<noteq> [] then s else ''You must select a valid value''
                                     | VBool b \<Rightarrow> ''You must select a valid value'')\<rparr>)"

text \<open>The handler of \<open>useKeypress\<close>, one branch per key in the order of the source. The
  render that installed the handler has computed \<open>bounds\<close> from the current items. A branch
  that throws yields the error alone: the setters it called before throwing (the Space
  branch clears the error and the help tip first) are not part of the result.\<close>

definition keypress :: "'v config \<Rightarrow> key \<Rightarrow> 'v state \<Rightarrow> error + 'v state" where
  "keypress cfg k st =
     (case k of
        KEnter \<Rightarrow> Inr (enter cfg st)
      | KDown \<Rightarrow>
          (case down (items st) (active st) of
             Inl e \<Rightarrow> Inl e
           | Inr a \<Rightarrow> Inr (st\<lparr>active := a\<rparr>))
      | KUp \<Rightarrow>
          (case bounds (items st) of
             Inl e \<Rightarrow> Inl e
           | Inr bnds \<Rightarrow>
               (case up (items st) bnds (active st) of
                  Inl e \<Rightarrow> Inl e
                | Inr a \<Rightarrow> Inr (st\<lparr>active := a\<rparr>)))
      | KRight \<Rightarrow> Inr (st\<lparr>items := right_mapItems (active st) 0 0 (items st)\<rparr>)
      | KLeft \<Rightarrow>
          (let st1 = st\<lparr>items := left_mapItems (active st) 0 False 0 (items st)\<rparr>
           in if length (active st) > 1 then Inr (st1\<lparr>active := butlast (active st)\<rparr>)
              else Inr st1)
      | KSpace \<Rightarrow>
          (case space_mapItems (active st) 0 0 (items st) of
             Inl e \<Rightarrow> Inl e
           | Inr its \<Rightarrow> Inr (st\<lparr>errorMsg := None, showHelpTip := False, items := its\<rparr>))
      | KA \<Rightarrow> Inr (st\<lparr>items := select_all (items st)\<rparr>)
      | KI \<Rightarrow> Inr (st\<lparr>items := map toggle (items st)\<rparr>)
      | KHelp \<Rightarrow> (case help_branch (items st) (active st) of Inl e \<Rightarrow> Inl e | Inr uu \<Rightarrow> Inr st)
      | KNumber \<Rightarrow> Inr st
      | KOther \<Rightarrow> Inr st)"

subsection \<open>Object literals for concrete inputs\<close>

text \<open>\<open>{ value: v, checked: ch, disabled: dis }\<close>, \<open>{ expanded: ex, disabled: dis, choices }\<close>,
  a configuration without \<open>validate\<close>, and the hooks' state of a pending session.\<close>

definition choice_lit :: "'v \<Rightarrow> bool option \<Rightarrow> flagstr option \<Rightarrow> 'v choice" where
  "choice_lit v ch dis =
     \<lparr>c_name = None, c_value = v, c_short = None, c_disabled = dis, c_checked = ch\<rparr>"

definition group_lit :: "bool option \<Rightarrow> flagstr option \<Rightarrow> group" where
  "group_lit ex dis = \<lparr>g_name = None, g_short = None, g_disabled = dis, g_expanded = ex\<rparr>"

definition config_lit :: "'v item list \<Rightarrow> bool option \<Rightarrow> bool option \<Rightarrow> 'v config" where
  "config_lit cs lp req = \<lparr>choices = cs, loop = lp, required = req, validate = None\<rparr>"

definition session :: "'v item list \<Rightarrow> nat list \<Rightarrow> 'v state" where
  "session its act =
     \<lparr>status = Pending, items = its, active = act, errorMsg = None, showHelpTip = True,
      validate_calls = [], answer = None\<rparr>"

lemmas lit_defs = choice_lit_def group_lit_def config_lit_def session_def

subsection \<open>Views of a tree\<close>

text \<open>All Choices of an item, at any depth, in pre-order; and the item with the \<open>expanded\<close>
  flag of every Group erased, which is everything of a tree but its \<open>expanded\<close> flags.\<close>

fun choices_of :: "'v item \<Rightarrow> 'v choice list" where
  "choices_of (Separator s) = []"
| "choices_of (Choice c) = [c]"
| "choices_of (Group g cs) = concat (map choices_of cs)"

fun forget_expanded :: "'v item \<Rightarrow> 'v item" where
  "forget_expanded (Separator s) = Separator s"
| "forget_expanded (Choice c) = Choice c"
| "forget_expanded (Group g cs) = Group (g\<lparr>g_expanded := None\<rparr>) (map forget_expanded cs)"

text \<open>Every expanded Group below the item, the item included, has a child.\<close>

fun expanded_nonempty :: "'v item \<Rightarrow> bool" where
  "expanded_nonempty (Group g cs) =
     ((if truthy (g_expanded g) then cs \<noteq> [] else True) \<and> list_all expanded_nonempty cs)"
| "expanded_nonempty item = True"

text \<open>The validity of a focus path, as the specification's data model states it: the path
  is not empty, every index but the last resolves to an expanded Group, and the last one to
  an existing item that is no Separator.\<close>

fun valid_path :: "'v item list \<Rightarrow> nat list \<Rightarrow> bool" where
  "valid_path its [] = False"
| "valid_path its [i] = (case at its i of None \<Rightarrow> False | Some item \<Rightarrow> \<not> isSeparator item)"
| "valid_path its (i # j # rest) =
     (case at its i of
        Some (Group g cs) \<Rightarrow> truthy (g_expanded g) \<and> valid_path cs (j # rest)
      | _ \<Rightarrow> False)"

text \<open>Every leaf below the item is a selectable Choice: no Separator, no disabled Choice.\<close>

fun all_selectable :: "'v item \<Rightarrow> bool" where
  "all_selectable (Separator s) = False"
| "all_selectable (Choice c) = isSelectable (Choice c)"
| "all_selectable (Group g cs) = list_all all_selectable cs"

text \<open>A Choice with \<open>checked\<close> set unless it is disabled.\<close>

definition mark :: "bool \<Rightarrow> 'v choice \<Rightarrow> 'v choice" where
  "mark b c = (if isSelectable (Choice c) then c\<lparr>c_checked := Some b\<rparr> else c)"

text \<open>The item a focus path points at: \<open>focused_in item rest\<close> follows \<open>rest\<close> from
  \<open>item\<close> down through the \<open>choices\<close> of Groups.\<close>

fun focused_in :: "'v item \<Rightarrow> nat list \<Rightarrow> 'v item option" where
  "focused_in item [] = Some item"
| "focused_in (Group g cs) (j # rest) =
     (case at cs j of None \<Rightarrow> None | Some child \<Rightarrow> focused_in child rest)"
| "focused_in item (j # rest) = None"

definition focused :: "'v item list \<Rightarrow> nat list \<Rightarrow> 'v item option" where
  "focused its act =
     (case act of
        [] \<Rightarrow> None
      | i # rest \<Rightarrow> (case at its i of None \<Rightarrow> None | Some item \<Rightarrow> focused_in item rest))"

section \<open>Properties\<close>

subsection \<open>Selectable bounds\<close>

lemma findIndex_ge: "- 1 \<le> findIndex p xs"
  by (induction xs) (auto simp: Let_def)

lemma findIndex_neg_iff: "findIndex p xs < 0 \<longleftrightarrow> \<not> list_ex p xs"
  by (induction xs) (auto simp: Let_def)

lemma findIndex_first:
  "0 \<le> findIndex p xs \<Longrightarrow>
     nat (findIndex p xs) < length xs \<and> p (xs ! nat (findIndex p xs)) \<and>
     (\<forall>j < nat (findIndex p xs). \<not> p (xs ! j))"
proof (induction xs)
  case Nil
  then show ?case by simp
next
  case (Cons x xs)
  show ?case
  proof (cases "p x")
    case True
    then show ?thesis by simp
  next
    case False
    with Cons.prems have r: "0 \<le> findIndex p xs"
      by (simp add: Let_def split: if_splits)
    then have eq: "nat (findIndex p (x # xs)) = Suc (nat (findIndex p xs))"
      using False by (simp add: Let_def nat_add_distrib)
    from Cons.IH [OF r] False show ?thesis
      unfolding eq by (auto simp: nth_Cons split: nat.splits)
  qed
qed

lemma findLastIndex_neg_iff: "findLastIndex p xs < 0 \<longleftrightarrow> \<not> list_ex p xs"
proof -
  have "int (length xs) - 1 - findIndex p (rev xs) \<ge> 0" if "0 \<le> findIndex p (rev xs)"
    using findIndex_first [OF that] that by (simp add: nat_less_iff)
  then show ?thesis
    using findIndex_neg_iff [of p "rev xs"]
    by (auto simp: findLastIndex_def Let_def list_ex_iff)
qed

lemma findLastIndex_last:
  assumes "0 \<le> findLastIndex p xs"
  shows "nat (findLastIndex p xs) < length xs \<and> p (xs ! nat (findLastIndex p xs)) \<and>
     (\<forall>j. nat (findLastIndex p xs) < j \<and> j < length xs \<longrightarrow> \<not> p (xs ! j))"
proof -
  let ?r = "findIndex p (rev xs)"
  from assms have r: "0 \<le> ?r"
    by (simp add: findLastIndex_def Let_def split: if_splits)
  from findIndex_first [OF r]
  have lt: "nat ?r < length xs" and px: "p (rev xs ! nat ?r)"
    and nx: "\<And>j. j < nat ?r \<Longrightarrow> \<not> p (rev xs ! j)"
    by auto
  have l: "nat (findLastIndex p xs) = length xs - 1 - nat ?r"
    using r lt by (simp add: findLastIndex_def Let_def nat_diff_distrib)
  have "p (xs ! (length xs - 1 - nat ?r))"
    using px lt by (simp add: rev_nth)
  moreover have "\<not> p (xs ! j)" if "length xs - 1 - nat ?r < j" "j < length xs" for j
  proof -
    have "length xs - 1 - j < nat ?r" using that lt by arith
    from nx [OF this] that show ?thesis by (simp add: rev_nth)
  qed
  ultimately show ?thesis using lt unfolding l by auto
qed

lemma bounds_Inl_iff:
  "(\<exists>e. bounds its = Inl e) \<longleftrightarrow> \<not> list_ex isSelectable its"
  using findIndex_neg_iff [of isSelectable its] by (auto simp: bounds_def Let_def)

lemma bounds_Inr:
  assumes "list_ex isSelectable its"
  shows "bounds its = Inr \<lparr>b_first = nat (findIndex isSelectable its),
                           b_last = nat (findLastIndex isSelectable its)\<rparr>"
  using assms findIndex_neg_iff [of isSelectable its] by (simp add: bounds_def Let_def)

subsection \<open>Confirming with Enter\<close>

text \<open>C1, as amended: on Enter, if \<open>required\<close> is set and no selectable Choice anywhere in
  the tree is checked, the prompt records the validation error
  "At least one choice must be selected" and the status (with the items, the focus and the
  answer) stays as it was; \<open>validate\<close> has been called once before that, with the
  flattened selection, and its result is not used.\<close>

theorem enter_required_unchecked:
  assumes "truthy (required cfg)" and "\<not> list_ex anyChecked (items st)"
  shows "keypress cfg KEnter st = Inr (enter cfg st) \<and>
         errorMsg (enter cfg st) = Some ''At least one choice must be selected'' \<and>
         status (enter cfg st) = status st \<and>
         items (enter cfg st) = items st \<and>
         active (enter cfg st) = active st \<and>
         answer (enter cfg st) = answer st \<and>
         validate_calls (enter cfg st) =
           validate_calls st @ [concat (map getChecked (items st))]"
  using assms by (simp add: keypress_def enter_def Let_def)

text \<open>The amended C1 at \<open>required: true\<close> and one unchecked Choice.\<close>

theorem enter_required_unchecked_witness:
  "truthy (required (config_lit [Choice (choice_lit ''a'' None None)] None (Some True))) \<and>
   \<not> list_ex anyChecked (items (session [Choice (choice_lit ''a'' None None)] [0])) \<and>
   errorMsg (enter (config_lit [Choice (choice_lit ''a'' None None)] None (Some True))
                   (session [Choice (choice_lit ''a'' None None)] [0]))
     = Some ''At least one choice must be selected'' \<and>
   status (enter (config_lit [Choice (choice_lit ''a'' None None)] None (Some True))
                   (session [Choice (choice_lit ''a'' None None)] [0])) = Pending"
proof -
  let ?cfg = "config_lit [Choice (choice_lit ''a'' None None)] None (Some True)"
  let ?st = "session [Choice (choice_lit ''a'' None None)] [0]"
  have req: "truthy (required ?cfg)" by (simp add: lit_defs)
  have nochk: "\<not> list_ex anyChecked (items ?st)" by (simp add: lit_defs)
  have pending: "status ?st = Pending" by (simp add: lit_defs)
  from enter_required_unchecked [OF req nochk] req nochk pending
  show ?thesis by simp
qed

text \<open>C1 as stated fails: with \<open>required: true\<close>, a supplied \<open>validate\<close> and nothing
  checked, Enter does call \<open>validate\<close>; the log of its calls goes from empty to one call
  with the empty selection.\<close>

theorem enter_required_calls_validate:
  "truthy (required ((config_lit [Choice (choice_lit ''a'' None None)] None (Some True))
                       \<lparr>validate := Some (\<lambda>selection. VBool False)\<rparr>)) \<and>
   \<not> list_ex anyChecked (items (session [Choice (choice_lit ''a'' None None)] [0])) \<and>
   validate_calls (session [Choice (choice_lit ''a'' None None)] [0]) = [] \<and>
   map_sum id validate_calls
     (keypress ((config_lit [Choice (choice_lit ''a'' None None)] None (Some True))
                  \<lparr>validate := Some (\<lambda>selection. VBool False)\<rparr>)
        KEnter
        (session [Choice (choice_lit ''a'' None None)] [0])) = Inr [[]]"
  by (simp add: lit_defs keypress_def enter_def Let_def)

subsection \<open>Down at the root\<close>

text \<open>What the Down branch does at depth 1: unless the focused root item is an expanded Group
  with children, it returns \<open>[active[0] + 1]\<close>; it reads neither \<open>loop\<close> nor \<open>bounds\<close> nor
  the number of root items.\<close>

lemma down_at_root:
  assumes "active st = [i]" and "at (items st) i = Some item"
    and "\<not> (case item of Group g cs \<Rightarrow> truthy (g_expanded g) \<and> length cs \<noteq> 0 | _ \<Rightarrow> False)"
  shows "keypress cfg KDown st = Inr (st\<lparr>active := [i + 1]\<rparr>)"
  using assms by (simp add: keypress_def down_def at_def split: if_splits)

text \<open>C5 at \<open>loop: false\<close> on a one-item list, the focus \<open>[0]\<close> on the last selectable root item
  (\<open>bounds.last\<close> is 0): Down moves the focus to \<open>[1]\<close>, past that item, where no item is;
  the next Down, and \<open>?\<close>, then throw a TypeError.\<close>

theorem down_past_last_selectable:
  "loop (config_lit [Choice (choice_lit ''a'' None None)] (Some False) None) = Some False \<and>
   bounds [Choice (choice_lit ''a'' None None)] = Inr \<lparr>b_first = 0, b_last = 0\<rparr> \<and>
   keypress (config_lit [Choice (choice_lit ''a'' None None)] (Some False) None) KDown
     (session [Choice (choice_lit ''a'' None None)] [0])
     = Inr (session [Choice (choice_lit ''a'' None None)] [1]) \<and>
   focused [Choice (choice_lit ''a'' None None)] [1] = None \<and>
   keypress (config_lit [Choice (choice_lit ''a'' None None)] (Some False) None) KDown
     (session [Choice (choice_lit ''a'' None None)] [1]) = Inl TypeError \<and>
   keypress (config_lit [Choice (choice_lit ''a'' None None)] (Some False) None) KHelp
     (session [Choice (choice_lit ''a'' None None)] [1]) = Inl TypeError"
  by (simp add: lit_defs keypress_def down_def help_branch_def focused_def at_def bounds_def
      findLastIndex_def Let_def)

subsection \<open>Startup\<close>

text \<open>C8: startup (the first render) fails if and only if no root-level item of the supplied
  choices is selectable, and then with the ValidationError "No selectable choices"; when a
  root-level item is selectable the prompt starts pending on the supplied items, and
  \<open>bounds\<close> holds the first and the last index of a selectable root-level item.\<close>

theorem startup_fails_iff_none_selectable:
  "((\<exists>e. init cfg = Inl e) \<longleftrightarrow> \<not> list_ex isSelectable (choices cfg)) \<and>
   (\<forall>e. init cfg = Inl e \<longrightarrow>
        e = ValidationError ''[checkbox prompt] No selectable choices. All choices are disabled.'') \<and>
   (list_ex isSelectable (choices cfg) \<longrightarrow>
      (\<exists>st f l. init cfg = Inr st \<and> status st = Pending \<and> items st = choices cfg \<and>
         bounds (choices cfg) = Inr \<lparr>b_first = f, b_last = l\<rparr> \<and>
         f < length (choices cfg) \<and> isSelectable (choices cfg ! f) \<and>
         (\<forall>j<f. \<not> isSelectable (choices cfg ! j)) \<and>
         l < length (choices cfg) \<and> isSelectable (choices cfg ! l) \<and>
         (\<forall>j. l < j \<and> j < length (choices cfg) \<longrightarrow> \<not> isSelectable (choices cfg ! j))))"
proof (intro conjI allI impI)
  show "(\<exists>e. init cfg = Inl e) \<longleftrightarrow> \<not> list_ex isSelectable (choices cfg)"
    using bounds_Inl_iff [of "choices cfg"]
    by (auto simp: init_def Let_def split: sum.splits)
next
  fix e assume "init cfg = Inl e"
  then show "e = ValidationError ''[checkbox prompt] No selectable choices. All choices are disabled.''"
    by (auto simp: init_def bounds_def Let_def split: sum.splits if_splits)
next
  assume sel: "list_ex isSelectable (choices cfg)"
  let ?f = "findIndex isSelectable (choices cfg)"
  let ?l = "findLastIndex isSelectable (choices cfg)"
  from sel have f0: "0 \<le> ?f" and l0: "0 \<le> ?l"
    using findIndex_neg_iff [of isSelectable "choices cfg"]
      findLastIndex_neg_iff [of isSelectable "choices cfg"] by auto
  have b: "bounds (choices cfg) = Inr \<lparr>b_first = nat ?f, b_last = nat ?l\<rparr>"
    by (rule bounds_Inr [OF sel])
  have i: "init cfg = Inr \<lparr>status = Pending, items = choices cfg, active = [nat ?f],
      errorMsg = None, showHelpTip = True, validate_calls = [], answer = None\<rparr>"
    by (simp add: init_def Let_def b)
  from i b findIndex_first [OF f0] findLastIndex_last [OF l0]
  show "\<exists>st f l. init cfg = Inr st \<and> status st = Pending \<and> items st = choices cfg \<and>
         bounds (choices cfg) = Inr \<lparr>b_first = f, b_last = l\<rparr> \<and>
         f < length (choices cfg) \<and> isSelectable (choices cfg ! f) \<and>
         (\<forall>j<f. \<not> isSelectable (choices cfg ! j)) \<and>
         l < length (choices cfg) \<and> isSelectable (choices cfg ! l) \<and>
         (\<forall>j. l < j \<and> j < length (choices cfg) \<longrightarrow> \<not> isSelectable (choices cfg ! j))"
    by auto
qed

text \<open>C8 on a list whose only selectable item has index 1, and on a list with none.\<close>

theorem startup_fails_iff_none_selectable_witness:
  "list_ex isSelectable
     [Separator ''-'', Choice (choice_lit ''a'' None None),
      Choice (choice_lit ''b'' None (Some (FBool True))), Separator ''-''] \<and>
   bounds [Separator ''-'', Choice (choice_lit ''a'' None None),
      Choice (choice_lit ''b'' None (Some (FBool True))), Separator ''-'']
     = Inr \<lparr>b_first = 1, b_last = 1\<rparr> \<and>
   \<not> list_ex isSelectable
     [Separator ''-'', Choice (choice_lit ''b'' None (Some (FBool True)))] \<and>
   init (config_lit [Separator ''-'', Choice (choice_lit ''b'' None (Some (FBool True)))] None None)
     = Inl (ValidationError ''[checkbox prompt] No selectable choices. All choices are disabled.'')"
proof -
  let ?good = "[Separator ''-'', Choice (choice_lit ''a'' None None),
      Choice (choice_lit ''b'' None (Some (FBool True))), Separator ''-'']"
  let ?bad = "[Separator ''-'', Choice (choice_lit ''b'' None (Some (FBool True)))]"
  have good: "list_ex isSelectable (choices (config_lit ?good None None))"
    by (simp add: lit_defs)
  have bad: "\<not> list_ex isSelectable (choices (config_lit ?bad None None))"
    by (simp add: lit_defs)
  from startup_fails_iff_none_selectable [of "config_lit ?good None None"] good
  obtain f l where b: "bounds ?good = Inr \<lparr>b_first = f, b_last = l\<rparr>"
    and f: "f < length ?good" "isSelectable (?good ! f)"
    and l: "l < length ?good" "isSelectable (?good ! l)"
    by (auto simp: config_lit_def)
  have "f = 1" using f by (auto simp: lit_defs less_Suc_eq)
  moreover have "l = 1" using l by (auto simp: lit_defs less_Suc_eq)
  moreover from startup_fails_iff_none_selectable [of "config_lit ?bad None None"] bad
  have "init (config_lit ?bad None None)
     = Inl (ValidationError ''[checkbox prompt] No selectable choices. All choices are disabled.'')"
    by blast
  ultimately show ?thesis using b good bad by (simp add: config_lit_def)
qed

text \<open>C10: when the prompt starts, the focus path is the one-element path \<open>[bounds.first]\<close>,
  the index of the first selectable root-level item: the focused item exists, is selectable
  (so neither a Separator nor disabled), and no root item before it is selectable.\<close>

theorem initial_focus_first_selectable:
  assumes "init cfg = Inr st"
  shows "\<exists>bnds. bounds (items st) = Inr bnds \<and> active st = [b_first bnds] \<and>
           b_first bnds < length (items st) \<and>
           isSelectable (items st ! b_first bnds) \<and>
           \<not> isSeparator (items st ! b_first bnds) \<and>
           (\<forall>j < b_first bnds. \<not> isSelectable (items st ! j))"
proof -
  from assms obtain bnds where b: "bounds (choices cfg) = Inr bnds"
    and st: "st = \<lparr>status = Pending, items = choices cfg, active = [b_first bnds],
      errorMsg = None, showHelpTip = True, validate_calls = [], answer = None\<rparr>"
    by (auto simp: init_def Let_def split: sum.splits)
  let ?f = "findIndex isSelectable (choices cfg)"
  from b have f0: "0 \<le> ?f" and bf: "b_first bnds = nat ?f"
    by (auto simp: bounds_def Let_def split: if_splits)
  from findIndex_first [OF f0]
  have "nat ?f < length (choices cfg)" "isSelectable (choices cfg ! nat ?f)"
    "\<forall>j < nat ?f. \<not> isSelectable (choices cfg ! j)" by auto
  moreover from this(2) have "\<not> isSeparator (choices cfg ! nat ?f)"
    by (cases "choices cfg ! nat ?f") auto
  ultimately show ?thesis using b st bf by simp
qed

text \<open>C10 on a list that begins with a Separator and a disabled Choice: the focus starts on
  the Group at index 2.\<close>

theorem initial_focus_first_selectable_witness:
  "init (config_lit [Separator ''-'', Choice (choice_lit ''b'' None (Some (FStr ''no''))),
                     Group (group_lit None None) [Choice (choice_lit ''c'' None None)]] None None)
     = Inr (session [Separator ''-'', Choice (choice_lit ''b'' None (Some (FStr ''no''))),
                     Group (group_lit None None) [Choice (choice_lit ''c'' None None)]] [2]) \<and>
   isSelectable ([Separator ''-'', Choice (choice_lit ''b'' None (Some (FStr ''no''))),
                     Group (group_lit None None) [Choice (choice_lit ''c'' None None)]] ! 2)"
proof -
  let ?its = "[Separator ''-'', Choice (choice_lit ''b'' None (Some (FStr ''no''))),
                     Group (group_lit None None) [Choice (choice_lit ''c'' None None)]]"
  have i: "init (config_lit ?its None None) = Inr (session ?its [2])"
    by (simp add: init_def bounds_def findLastIndex_def lit_defs Let_def)
  from initial_focus_first_selectable [OF i]
  have "isSelectable (items (session ?its [2]) ! hd (active (session ?its [2])))"
    by auto
  then show ?thesis using i by (simp add: session_def)
qed

subsection \<open>Collapsing with Left\<close>

lemma left_mapItem_forget:
  fixes item :: "'v item" and its :: "'v item list"
  shows "forget_expanded (left_mapItem a d sel i item) = forget_expanded item"
  "map forget_expanded (left_mapItems a d sel i its) = map forget_expanded its"
  by (induction a d sel i item and a d sel i its rule: left_mapItem_left_mapItems.induct)
     (simp_all add: Let_def)

lemma left_mapItem_choices:
  fixes item :: "'v item" and its :: "'v item list"
  shows "choices_of (left_mapItem a d sel i item) = choices_of item"
    and "concat (map choices_of (left_mapItems a d sel i its)) = concat (map choices_of its)"
  by (induction a d sel i item and a d sel i its rule: left_mapItem_left_mapItems.induct)
     (simp_all add: Let_def)

text \<open>C7: for every tree and every focus path, Left never throws and changes no Choice:
  the Choices of the resulting tree are, in order, the Choices of the tree before, so every
  \<open>checked\<close> value is as it was. The trees agree in everything but the \<open>expanded\<close> flags of
  their Groups, the focus path loses its last index when it is deeper than the root, and
  nothing else of the session changes.\<close>

theorem left_keeps_checked:
  "\<exists>st'. keypress cfg KLeft st = Inr st' \<and>
     concat (map choices_of (items st')) = concat (map choices_of (items st)) \<and>
     map forget_expanded (items st') = map forget_expanded (items st) \<and>
     active st' = (if length (active st) > 1 then butlast (active st) else active st) \<and>
     status st' = status st \<and> errorMsg st' = errorMsg st \<and> answer st' = answer st"
  by (simp add: keypress_def Let_def left_mapItem_forget left_mapItem_choices)

subsection \<open>Up never throws on a well-formed tree\<close>

lemma at_Some_mem: "at xs i = Some x \<Longrightarrow> x \<in> set xs"
  using nth_mem [of i xs] by (auto simp: at_def split: if_splits)

lemma at_last: "cs \<noteq> [] \<Longrightarrow> at cs (length cs - Suc 0) = Some (last cs)"
  by (simp add: at_def last_conv_nth)

lemma calcPrior_total: "expanded_nonempty item \<Longrightarrow> \<exists>prior. calcPrior (Some item) = Inr prior"
proof (induction item)
  case (Group g cs)
  show ?case
  proof (cases "truthy (g_expanded g)")
    case True
    with Group.prems have ne: "cs \<noteq> []" and all: "list_all expanded_nonempty cs"
      by simp_all
    from ne have mem: "last cs \<in> set cs" by simp
    with all have "expanded_nonempty (last cs)" by (simp add: list_all_iff)
    from Group.IH [OF mem this] obtain prior where "calcPrior (Some (last cs)) = Inr prior" ..
    with True ne show ?thesis by (simp add: at_last Let_def)
  next
    case False
    then show ?thesis by simp
  qed
qed simp_all

lemma up_ptr_sibling:
  assumes "valid_path its act" and "last act \<noteq> 0" and "list_all expanded_nonempty its"
  shows "\<exists>item. up_ptr (at its (hd (butlast act @ [last act - 1])))
                       (tl (butlast act @ [last act - 1])) = Inr (Some item) \<and>
                expanded_nonempty item"
  using assms
proof (induction its act rule: valid_path.induct)
  case (1 its)
  then show ?case by simp
next
  case (2 its i)
  then have "i - 1 < length its" by (auto simp: at_def split: if_splits)
  with 2 show ?case by (auto simp: at_def list_all_length)
next
  case (3 its i j rest)
  from "3.prems"(1) obtain g cs where g: "at its i = Some (Group g cs)"
    and v: "valid_path cs (j # rest)"
    by (auto split: option.splits item.splits)
  from g have "Group g cs \<in> set its" by (rule at_Some_mem)
  with "3.prems"(3) have all: "list_all expanded_nonempty cs" by (auto simp: list_all_iff)
  from "3.prems"(2) have l: "last (j # rest) \<noteq> 0" by simp
  from "3.IH" [OF g refl v l all] obtain item where
    "up_ptr (at cs (hd (butlast (j # rest) @ [last (j # rest) - 1])))
       (tl (butlast (j # rest) @ [last (j # rest) - 1])) = Inr (Some item)"
    "expanded_nonempty item" by blast
  moreover have "butlast (j # rest) @ [last (j # rest) - 1] \<noteq> []" by simp
  then obtain k ks where "butlast (j # rest) @ [last (j # rest) - 1] = k # ks"
    by (cases "butlast (j # rest) @ [last (j # rest) - 1]") auto
  ultimately show ?case using g by (auto split: if_splits)
qed

text \<open>C9: for every tree in which every expanded Group has at least one child, and every
  valid focus path, the Up branch returns a focus path and does not throw.\<close>

theorem up_total:
  assumes "list_all expanded_nonempty its" and "valid_path its act"
  shows "\<exists>path. up its bnds act = Inr path"
proof -
  from assms(2) have ne: "act \<noteq> []" by (cases act) auto
  show ?thesis
  proof (cases "(length act = 1 \<and> hd act = 0) \<or> last act = 0")
    case True
    with ne show ?thesis by (auto simp: up_def)
  next
    case False
    then have l: "last act \<noteq> 0" by simp
    from up_ptr_sibling [OF assms(2) l assms(1)] obtain item where
      p: "up_ptr (at its (hd (butlast act @ [last act - 1])))
                 (tl (butlast act @ [last act - 1])) = Inr (Some item)"
      and e: "expanded_nonempty item" by blast
    from calcPrior_total [OF e] obtain prior where "calcPrior (Some item) = Inr prior" ..
    with p ne False show ?thesis by (simp add: up_def Let_def)
  qed
qed

text \<open>C9 on a tree whose first root item is an expanded Group with two children: from the
  root item after it, Up lands on the last child of the Group.\<close>

theorem up_total_witness:
  "list_all expanded_nonempty
     [Group (group_lit (Some True) None)
        [Choice (choice_lit ''a'' None None), Choice (choice_lit ''b'' None None)],
      Choice (choice_lit ''c'' None None)] \<and>
   valid_path
     [Group (group_lit (Some True) None)
        [Choice (choice_lit ''a'' None None), Choice (choice_lit ''b'' None None)],
      Choice (choice_lit ''c'' None None)] [1] \<and>
   up [Group (group_lit (Some True) None)
        [Choice (choice_lit ''a'' None None), Choice (choice_lit ''b'' None None)],
      Choice (choice_lit ''c'' None None)] \<lparr>b_first = 0, b_last = 1\<rparr> [1] = Inr [0, 1]"
proof -
  let ?its = "[Group (group_lit (Some True) None)
        [Choice (choice_lit ''a'' None None), Choice (choice_lit ''b'' None None)],
      Choice (choice_lit ''c'' None None)]"
  have wf: "list_all expanded_nonempty ?its" by (simp add: lit_defs)
  have vp: "valid_path ?its [1]" by (simp add: at_def)
  from up_total [OF wf vp, of "\<lparr>b_first = 0, b_last = 1\<rparr>"]
  obtain path where p: "up ?its \<lparr>b_first = 0, b_last = 1\<rparr> [1] = Inr path" ..
  then have "path = [0, 1]" by (simp add: up_def at_def lit_defs Let_def)
  with p wf vp show ?thesis by simp
qed

text \<open>The precondition of C9 is needed: \<open>calcPrior\<close> descends into an expanded Group without
  looking at the number of its children, and on an empty one it reads \<open>choices[-1]\<close> and throws.\<close>

lemma up_throws_on_empty_expanded_group:
  "up [Group (group_lit (Some True) None) [], Choice (choice_lit ''c'' None None)]
      \<lparr>b_first = 0, b_last = 1\<rparr> [1] = Inl TypeError"
  by (simp add: up_def at_def lit_defs Let_def)

subsection \<open>Flattening the checked Choices\<close>

text \<open>What \<open>getChecked\<close> flattens: the Choices whose \<open>checked\<close> is truthy, in tree order,
  disabled or not.\<close>

lemma getChecked_filter:
  "getChecked item = filter (\<lambda>c. truthy (c_checked c)) (choices_of item)"
  by (induction item) (auto simp: filter_concat comp_def cong: map_cong)

subsection \<open>Select All\<close>


lemma choices_of_check: "choices_of (check b item) = map (mark b) (choices_of item)"
  by (induction item) (auto simp: mark_def map_concat comp_def cong: map_cong)

lemma allChecked_choices:
  "allChecked item \<Longrightarrow> list_all (\<lambda>c. isChecked (Choice c)) (choices_of item)"
  by (induction item) (auto simp: list_all_iff)

lemma all_selectable_check: "all_selectable (check b item) = all_selectable item"
  by (induction item) (auto simp: list_all_iff)

lemma allChecked_check_True: "all_selectable item \<Longrightarrow> allChecked (check True item)"
  by (induction item) (auto simp: list_all_iff)

lemma getChecked_check_False: "all_selectable item \<Longrightarrow> getChecked (check False item) = []"
  by (induction item) (auto simp: list_all_iff)

lemma unchecked_not_all:
  assumes "list_ex (\<lambda>c. isSelectable (Choice c) \<and> \<not> truthy (c_checked c))
             (concat (map choices_of its))"
  shows "\<not> list_all allChecked its"
proof
  assume "list_all allChecked its"
  then have "\<forall>item \<in> set its. \<forall>c \<in> set (choices_of item). isChecked (Choice c)"
    using allChecked_choices by (fastforce simp: list_all_iff)
  with assms show False by (auto simp: list_ex_iff)
qed

text \<open>When some selectable Choice is unchecked, \<open>a\<close> checks every selectable Choice and
  leaves the disabled ones as they are; when every leaf of the tree is a checked selectable
  Choice, it unchecks every Choice.\<close>

lemma select_all_checks:
  assumes "list_ex (\<lambda>c. isSelectable (Choice c) \<and> \<not> truthy (c_checked c))
             (concat (map choices_of its))"
  shows "select_all its = map (check True) its"
    and "concat (map choices_of (select_all its)) = map (mark True) (concat (map choices_of its))"
proof -
  show s: "select_all its = map (check True) its"
    using assms unchecked_not_all [of its] by (simp add: select_all_def)
  show "concat (map choices_of (select_all its)) = map (mark True) (concat (map choices_of its))"
    unfolding s by (simp add: map_concat comp_def choices_of_check)
qed

lemma select_all_unchecks:
  assumes "list_all allChecked its"
  shows "select_all its = map (check False) its"
    and "concat (map choices_of (select_all its))
           = map (\<lambda>c. c\<lparr>c_checked := Some False\<rparr>) (concat (map choices_of its))"
proof -
  show s: "select_all its = map (check False) its"
    using assms by (simp add: select_all_def)
  from assms have "\<forall>item \<in> set its. \<forall>c \<in> set (choices_of item). isSelectable (Choice c)"
    using allChecked_choices by (fastforce simp: list_all_iff)
  then have "map (mark False) (concat (map choices_of its))
      = map (\<lambda>c. c\<lparr>c_checked := Some False\<rparr>) (concat (map choices_of its))"
    by (auto simp: mark_def)
  then show "concat (map choices_of (select_all its))
      = map (\<lambda>c. c\<lparr>c_checked := Some False\<rparr>) (concat (map choices_of its))"
    unfolding s by (simp add: map_concat comp_def choices_of_check)
qed

text \<open>After that first press the flattened selection is exactly the Choices that are not
  disabled, on every tree, Separators included, in which no disabled Choice is checked.\<close>

lemma select_all_first_press:
  assumes "list_ex (\<lambda>c. isSelectable (Choice c) \<and> \<not> truthy (c_checked c))
             (concat (map choices_of its))"
    and "list_all (\<lambda>c. isSelectable (Choice c) \<or> \<not> truthy (c_checked c))
             (concat (map choices_of its))"
  shows "concat (map getChecked (select_all its))
           = filter (\<lambda>c. isSelectable (Choice c)) (concat (map choices_of (select_all its)))"
proof -
  have g: "concat (map getChecked xs)
      = filter (\<lambda>c. truthy (c_checked c)) (concat (map choices_of xs))" for xs :: "'a item list"
    by (induction xs) (simp_all add: getChecked_filter)
  have "filter (\<lambda>c. truthy (c_checked c)) (map (mark True) (concat (map choices_of its)))
      = filter (\<lambda>c. isSelectable (Choice c)) (map (mark True) (concat (map choices_of its)))"
    using assms(2) by (intro filter_cong) (auto simp: list_all_iff mark_def)
  then show ?thesis
    unfolding g select_all_checks(2) [OF assms(1)] .
qed

text \<open>On a tree without Separators and disabled Choices a second press unchecks everything.\<close>

lemma select_all_second_press:
  assumes "list_all all_selectable its"
    and "list_ex (\<lambda>c. \<not> truthy (c_checked c)) (concat (map choices_of its))"
  shows "concat (map getChecked (select_all (select_all its))) = []"
proof -
  from assms(2) have "\<not> list_all allChecked its"
    using allChecked_choices by (fastforce simp: list_all_iff list_ex_iff)
  then have s1: "select_all its = map (check True) its"
    by (simp add: select_all_def)
  from assms(1) have "list_all allChecked (map (check True) its)"
    by (simp add: list_all_iff allChecked_check_True)
  then have "select_all (map (check True) its) = map (check False) (map (check True) its)"
    by (rule select_all_unchecks(1))
  then have s2: "select_all (select_all its) = map (check False) (map (check True) its)"
    by (simp only: s1)
  from assms(1) have "list_all all_selectable (map (check True) its)"
    by (simp add: list_all_iff all_selectable_check)
  then show ?thesis
    unfolding s2 by (simp add: list_all_iff getChecked_check_False)
qed

text \<open>C3 on a list with a Separator and one unchecked Choice: the first \<open>a\<close> checks the
  Choice, after which no selectable Choice is unchecked; the second \<open>a\<close> still computes
  \<open>selectAll = true\<close>, because \<open>allChecked\<close> is false on the Separator, and the flattened
  selection stays the Choice instead of becoming empty. A disabled Choice in the list has
  the same effect.\<close>

theorem select_all_twice_with_separator:
  "keypress (config_lit [Separator ''-'', Choice (choice_lit ''a'' None None)] None None) KA
      (session [Separator ''-'', Choice (choice_lit ''a'' None None)] [1])
     = Inr (session [Separator ''-'', Choice (choice_lit ''a'' (Some True) None)] [1]) \<and>
   filter (\<lambda>c. isSelectable (Choice c) \<and> \<not> truthy (c_checked c))
      (concat (map choices_of [Separator ''-'', Choice (choice_lit ''a'' (Some True) None)])) = [] \<and>
   keypress (config_lit [Separator ''-'', Choice (choice_lit ''a'' None None)] None None) KA
      (session [Separator ''-'', Choice (choice_lit ''a'' (Some True) None)] [1])
     = Inr (session [Separator ''-'', Choice (choice_lit ''a'' (Some True) None)] [1]) \<and>
   concat (map getChecked [Separator ''-'', Choice (choice_lit ''a'' (Some True) None)])
     = [choice_lit ''a'' (Some True) None] \<and>
   select_all (select_all [Choice (choice_lit ''d'' None (Some (FBool True))),
                           Choice (choice_lit ''e'' None None)])
     = [Choice (choice_lit ''d'' None (Some (FBool True))),
        Choice (choice_lit ''e'' (Some True) None)]"
  by (simp add: keypress_def select_all_def lit_defs)

subsection \<open>Disabled Choices that are checked\<close>

text \<open>Where no Choice is both disabled and checked, \<open>getChecked\<close> is the pre-order filter of
  the Choices by \<open>isChecked\<close>.\<close>

lemma getChecked_selectable:
  assumes "list_all (\<lambda>c. isSelectable (Choice c) \<or> \<not> truthy (c_checked c)) (choices_of item)"
  shows "getChecked item = filter (\<lambda>c. isChecked (Choice c)) (choices_of item)"
  unfolding getChecked_filter using assms
  by (intro filter_cong) (auto simp: list_all_iff)

text \<open>\<open>toggle\<close> flips every Choice of the tree, disabled or not.\<close>

lemma choices_of_toggle:
  "choices_of (toggle item)
     = map (\<lambda>c. c\<lparr>c_checked := Some (\<not> truthy (c_checked c))\<rparr>) (choices_of item)"
  by (induction item) (auto simp: map_concat comp_def cong: map_cong)

text \<open>C2 at a Choice that is disabled and checked: \<open>getChecked\<close> does not test \<open>disabled\<close>,
  so Enter answers with the value of the disabled Choice.\<close>

theorem enter_answers_disabled_checked:
  "\<not> isSelectable (Choice (choice_lit ''a'' (Some True) (Some (FBool True)))) \<and>
   concat (map getChecked
     [Choice (choice_lit ''a'' (Some True) (Some (FBool True))), Choice (choice_lit ''b'' None None)])
     = [choice_lit ''a'' (Some True) (Some (FBool True))] \<and>
   map_sum id answer
     (keypress
        (config_lit [Choice (choice_lit ''a'' (Some True) (Some (FBool True))),
                     Choice (choice_lit ''b'' None None)] None None)
        KEnter
        (session [Choice (choice_lit ''a'' (Some True) (Some (FBool True))),
                  Choice (choice_lit ''b'' None None)] [1]))
     = Inr (Some [''a''])"
  by (simp add: keypress_def enter_def the_validate_def lit_defs Let_def)

text \<open>C6 at a disabled Choice: \<open>toggle\<close> excludes Separators only, so Invert checks the
  disabled Choice as well.\<close>

theorem invert_flips_disabled:
  "\<not> isSelectable (Choice (choice_lit ''a'' None (Some (FBool True)))) \<and>
   keypress (config_lit [Choice (choice_lit ''a'' None (Some (FBool True))),
                         Choice (choice_lit ''b'' None None)] None None)
      KI
      (session [Choice (choice_lit ''a'' None (Some (FBool True))),
                Choice (choice_lit ''b'' None None)] [1])
     = Inr (session [Choice (choice_lit ''a'' (Some True) (Some (FBool True))),
                     Choice (choice_lit ''b'' (Some True) None)] [1])"
  by (simp add: keypress_def lit_defs)

subsection \<open>Space on a Group\<close>















end
